theory Spec2Isabelle
  imports Complex_Main "HOL-Library.Sublist"
begin

section \<open>Values of the source language\<close>

text \<open>
  The schedule parser of \<^verbatim>\<open>scripts.js\<close> works on rows of spreadsheet cells. A cell is
  a string, a number, or missing (\<^verbatim>\<open>undefined\<close>, when the row is shorter than the
  index read). Strings are lists of code units below 256 (ASCII and Latin-1); numbers are
  the finite values, taken as exact rationals (the arithmetic of \<^verbatim>\<open>normalizeTime\<close> is
  carried out without binary rounding), and the three non-finite values of the language.

  The decimal rendering of a finite number by \<^verbatim>\<open>Number.prototype.toString\<close> belongs to
  the language and not to this program: every function that reaches it takes it as the
  parameter \<open>nts\<close>, and every theorem below holds for every such rendering.
\<close>

datatype number = Finite rat | NaN | PosInfinity | NegInfinity

datatype cell = Undefined | CStr string | CNum number

type_synonym row = "cell list"

text \<open>\<^verbatim>\<open>row[i]\<close>: reading past the end of an array gives \<^verbatim>\<open>undefined\<close>.\<close>

definition cellAt :: "row \<Rightarrow> nat \<Rightarrow> cell" where
  "cellAt r i = (if i < length r then r ! i else Undefined)"

text \<open>Truthiness, as used by \<^verbatim>\<open>if (c1)\<close>, \<^verbatim>\<open>!c1\<close> and \<^verbatim>\<open>row[0] || ""\<close>.\<close>

fun truthy :: "cell \<Rightarrow> bool" where
  "truthy Undefined = False"
| "truthy (CStr s) = (s \<noteq> [])"
| "truthy (CNum (Finite q)) = (q \<noteq> 0)"
| "truthy (CNum NaN) = False"
| "truthy (CNum PosInfinity) = True"
| "truthy (CNum NegInfinity) = True"

fun numberToString :: "(rat \<Rightarrow> string) \<Rightarrow> number \<Rightarrow> string" where
  "numberToString nts (Finite q) = nts q"
| "numberToString nts NaN = ''NaN''"
| "numberToString nts PosInfinity = ''Infinity''"
| "numberToString nts NegInfinity = ''-Infinity''"

section \<open>Characters and strings\<close>

text \<open>White space as matched by \<^verbatim>\<open>\s\<close> and removed by \<^verbatim>\<open>trim\<close>: TAB, LF, VT, FF,
  CR, SPACE and NO-BREAK SPACE (the members of the class below 256).\<close>

definition is_space :: "char \<Rightarrow> bool" where
  "is_space c = (c \<in> set [CHR 0x09, CHR 0x0A, CHR 0x0B, CHR 0x0C, CHR 0x0D, CHR 0x20, CHR 0xA0])"

text \<open>\<^verbatim>\<open>\d\<close> matches the ten ASCII digits only.\<close>

definition is_digit :: "char \<Rightarrow> bool" where
  "is_digit c = (c \<in> set ''0123456789'')"

text \<open>Upper-casing of the ASCII letters. The program applies \<^verbatim>\<open>toUpperCase\<close> only to
  strings that match the time pattern, which are ASCII; the same map is the
  canonicalisation behind the \<^verbatim>\<open>i\<close> flag of the patterns, all of whose letters are ASCII.\<close>

definition upperChar :: "char \<Rightarrow> char" where
  "upperChar c =
     (case map_of (zip ''abcdefghijklmnopqrstuvwxyz'' ''ABCDEFGHIJKLMNOPQRSTUVWXYZ'') c of
        None \<Rightarrow> c | Some u \<Rightarrow> u)"

definition toUpperCase :: "string \<Rightarrow> string" where
  "toUpperCase s = map upperChar s"

text \<open>\<^verbatim>\<open>toLowerCase\<close> on code units below 256: A to Z, and the Latin-1 capitals
  (0xC0 to 0xDE without the multiplication sign 0xD7), move up by 32.\<close>

definition lowerChar :: "char \<Rightarrow> char" where
  "lowerChar c =
     (let n = (of_char c :: nat) in
      if (65 \<le> n \<and> n \<le> 90) \<or> (192 \<le> n \<and> n \<le> 222 \<and> n \<noteq> 215)
      then char_of (n + 32) else c)"

definition toLowerCase :: "string \<Rightarrow> string" where
  "toLowerCase s = map lowerChar s"

text \<open>\<^verbatim>\<open>s.trim()\<close>.\<close>

definition trimEnd :: "string \<Rightarrow> string" where
  "trimEnd s = rev (dropWhile is_space (rev s))"

definition trim :: "string \<Rightarrow> string" where
  "trim s = trimEnd (dropWhile is_space s)"

text \<open>\<^verbatim>\<open>s.replace(/\s+/g, " ")\<close>: every maximal run of white space becomes one space
  (written when the last character of the run is reached).\<close>

fun collapseSpaces :: "string \<Rightarrow> string" where
  "collapseSpaces [] = []"
| "collapseSpaces [c] = [if is_space c then CHR '' '' else c]"
| "collapseSpaces (c # d # cs) =
     (if is_space c
      then (if is_space d then collapseSpaces (d # cs) else CHR '' '' # collapseSpaces (d # cs))
      else c # collapseSpaces (d # cs))"

subsection \<open>The regular expressions of the program\<close>

text \<open>A literal of a pattern under the \<^verbatim>\<open>i\<close> flag, matched at the start of the text.\<close>

fun ci_prefix :: "string \<Rightarrow> string \<Rightarrow> bool" where
  "ci_prefix [] s = True"
| "ci_prefix (p # ps) [] = False"
| "ci_prefix (p # ps) (c # cs) = (upperChar c = upperChar p \<and> ci_prefix ps cs)"

text \<open>An unanchored pattern is tried at every position of the text.\<close>

fun anywhere :: "(string \<Rightarrow> bool) \<Rightarrow> string \<Rightarrow> bool" where
  "anywhere P [] = P []"
| "anywhere P (c # cs) = (P (c # cs) \<or> anywhere P cs)"

text \<open>\<^verbatim>\<open>a\s*b\<close> at the start of the text, for literals \<open>a\<close> and \<open>b\<close> where \<open>b\<close> does not
  begin with white space (so that the greedy \<^verbatim>\<open>\s*\<close> never has to give back).\<close>

definition lit_ws_lit :: "string \<Rightarrow> string \<Rightarrow> string \<Rightarrow> bool" where
  "lit_ws_lit a b s = (ci_prefix a s \<and> ci_prefix b (dropWhile is_space (drop (length a) s)))"

text \<open>\<^verbatim>\<open>/friday\s*schedule/i\<close>, \<^verbatim>\<open>/route\s*no/i\<close>, \<^verbatim>\<open>/route\s*details/i\<close>,
  \<^verbatim>\<open>/^[RF]\d+/i\<close> and \<^verbatim>\<open>/to/i\<close>, each as its \<^verbatim>\<open>test\<close>.\<close>

definition fridayMarker :: "string \<Rightarrow> bool" where
  "fridayMarker s = anywhere (lit_ws_lit ''friday'' ''schedule'') s"

definition headerRegex :: "string \<Rightarrow> bool" where
  "headerRegex s = anywhere (lit_ws_lit ''route'' ''no'') s"

definition routeDetailsRegex :: "string \<Rightarrow> bool" where
  "routeDetailsRegex s = anywhere (lit_ws_lit ''route'' ''details'') s"

fun looksLikeRouteCode :: "string \<Rightarrow> bool" where
  "looksLikeRouteCode (c # d # cs) =
     ((upperChar c = CHR ''R'' \<or> upperChar c = CHR ''F'') \<and> is_digit d)"
| "looksLikeRouteCode _ = False"

definition containsTo :: "string \<Rightarrow> bool" where
  "containsTo s = anywhere (ci_prefix ''to'') s"

text \<open>\<^verbatim>\<open>(AM|PM)\<close> under the \<^verbatim>\<open>i\<close> flag, matching the whole of its text.\<close>

definition is_ampm :: "string \<Rightarrow> bool" where
  "is_ampm s = (map upperChar s = ''AM'' \<or> map upperChar s = ''PM'')"

text \<open>
  \<^verbatim>\<open>/^(\d{1,2})\.(\d{2})\s*(AM|PM)$/i\<close>, returning the three groups. The character after
  the first group is a dot, so the group is the whole leading run of digits, which must
  be one or two long; after the two minute digits the white space is skipped and the rest
  of the text is the third group.
\<close>

definition dottedMatch :: "string \<Rightarrow> (string \<times> string \<times> string) option" where
  "dottedMatch s =
     (let h = takeWhile is_digit s in
      if length h = 1 \<or> length h = 2 then
        (case dropWhile is_digit s of
           c # a # b # r \<Rightarrow>
             if c = CHR ''.'' \<and> is_digit a \<and> is_digit b \<and> is_ampm (dropWhile is_space r)
             then Some (h, [a, b], dropWhile is_space r) else None
         | _ \<Rightarrow> None)
      else None)"

text \<open>\<^verbatim>\<open>t.replace(/^(\d{1,2})\.(\d{2})\s*(AM|PM)$/i, "$1:$2 $3")\<close>.\<close>

definition rewriteDotted :: "string \<Rightarrow> string" where
  "rewriteDotted s =
     (case dottedMatch s of
        Some (h, m, ap) \<Rightarrow> h @ '':'' @ m @ '' '' @ ap
      | None \<Rightarrow> s)"

text \<open>\<^verbatim>\<open>/^\d{1,2}:\d{2}(\s?(AM|PM))?$/i\<close> as its \<^verbatim>\<open>test\<close>.\<close>

definition timeMatch :: "string \<Rightarrow> bool" where
  "timeMatch s =
     (let h = takeWhile is_digit s in
      (length h = 1 \<or> length h = 2) \<and>
      (case dropWhile is_digit s of
         c # a # b # r \<Rightarrow>
           c = CHR '':'' \<and> is_digit a \<and> is_digit b \<and>
           (r = [] \<or> is_ampm r \<or> (case r of w # r' \<Rightarrow> is_space w \<and> is_ampm r' | [] \<Rightarrow> False))
       | _ \<Rightarrow> False))"

section \<open>Time normalisation\<close>

text \<open>Decimal digits of a natural number, and \<^verbatim>\<open>n.toString()\<close> for an integer.\<close>

definition digitChar :: "nat \<Rightarrow> char" where
  "digitChar k = ''0123456789'' ! k"

fun natToString :: "nat \<Rightarrow> string" where
  "natToString n =
     (if n < 10 then [digitChar n]
      else natToString (n div 10) @ [digitChar (n mod 10)])"

declare natToString.simps [simp del]

definition intToString :: "int \<Rightarrow> string" where
  "intToString i = (if i < 0 then CHR ''-'' # natToString (nat (- i)) else natToString (nat i))"

text \<open>\<^verbatim>\<open>s.padStart(2, "0")\<close>.\<close>

definition padStart2 :: "string \<Rightarrow> string" where
  "padStart2 s = replicate (2 - length s) (CHR ''0'') @ s"

text \<open>The remainder \<^verbatim>\<open>a % b\<close> on integers takes the sign of the dividend.\<close>

definition js_rem :: "int \<Rightarrow> int \<Rightarrow> int" where
  "js_rem a b = sgn a * (\<bar>a\<bar> mod \<bar>b\<bar>)"

text \<open>\<^verbatim>\<open>Math.round\<close> rounds to the nearest integer, a half upwards.\<close>

definition js_round :: "rat \<Rightarrow> int" where
  "js_round x = \<lfloor>x + 1 / 2\<rfloor>"

definition formatTime :: "int \<Rightarrow> int \<Rightarrow> string" where
  "formatTime hh mm =
     (let ampm = (if hh \<ge> 12 then ''PM'' else ''AM'');
          h12 = (if js_rem hh 12 = 0 then 12 else js_rem hh 12)
      in intToString h12 @ '':'' @ padStart2 (intToString mm) @ '' '' @ ampm)"

text \<open>The part of \<^verbatim>\<open>normalizeTime\<close> that works on the text of the value (from the
  \<^verbatim>\<open>replace\<close> of white space to the end of the function).\<close>

definition normalizeText :: "string \<Rightarrow> string" where
  "normalizeText s =
     (let t = trim (collapseSpaces s) in
      if containsTo t then t
      else let t' = rewriteDotted t in
           if timeMatch t' then toUpperCase t' else t')"

text \<open>
  \<^verbatim>\<open>normalizeTime\<close>. The products and the difference of the numeric branches are taken
  exactly. The program takes them in binary floating point; the two agree wherever the
  intermediate values are representable (as for 1/2, 1/4, 3/4, 37/2 and 4095/4096) and can
  differ by one minute where a product lies within a rounding error of a half minute.
  The theorems below that speak of every number use only that the hour is not negative and
  that the minute lies between 0 and 99, which holds for the values of the program as well.
\<close>

fun normalizeTime :: "(rat \<Rightarrow> string) \<Rightarrow> cell \<Rightarrow> string" where
  "normalizeTime nts Undefined = []"
| "normalizeTime nts (CStr s) = (if s = [] then [] else normalizeText s)"
| "normalizeTime nts (CNum (Finite t)) =
     (if t \<ge> 0 \<and> t < 1 then
        (let totalMinutes = js_round (t * 24 * 60);
             hh = \<lfloor>(of_int totalMinutes :: rat) / 60\<rfloor>;
             mm = js_rem totalMinutes 60
         in formatTime hh mm)
      else if t > 1 \<and> t < 24 then
        (let hh = \<lfloor>t\<rfloor>;
             mm = js_round ((t - of_int hh) * 60)
         in formatTime hh mm)
      else normalizeText (nts t))"
| "normalizeTime nts (CNum n) = normalizeText (numberToString nts n)"

section \<open>The schedule parser\<close>

text \<open>
  A route object as \<^verbatim>\<open>parseSchedule\<close> builds it. (The derived label \<^verbatim>\<open>display\<close>, which
  the post-pass adds for the drop-down, joins code and name with a dash outside Latin-1;
  nothing below reads it and it is left out.)
\<close>

record route =
  code :: string
  name :: string
  details :: string
  toDSC :: "string list"
  fromDSC :: "string list"

datatype mode = Regular | Friday

text \<open>
  The variables of the loop. Route objects are shared between \<^verbatim>\<open>current\<close> and the two
  arrays and are updated in place, so they live in a store (addressed by position, in
  order of creation); \<^verbatim>\<open>current\<close> and the arrays hold addresses.
\<close>

record pstate =
  mode :: mode
  current :: "nat option"
  store :: "route list"
  routesRegular :: "nat list"
  routesFriday :: "nat list"

definition initState :: pstate where
  "initState = \<lparr>mode = Regular, current = None, store = [], routesRegular = [], routesFriday = []\<rparr>"

text \<open>\<^verbatim>\<open>(row[i] || "").toString().trim()\<close>.\<close>

fun cellText :: "(rat \<Rightarrow> string) \<Rightarrow> cell \<Rightarrow> string" where
  "cellText nts Undefined = trim []"
| "cellText nts (CStr s) = trim s"
| "cellText nts (CNum n) = (if truthy (CNum n) then trim (numberToString nts n) else trim [])"

text \<open>\<^verbatim>\<open>if (c) xs.push(normalizeTime(c))\<close>, as the new value of \<open>xs\<close>.\<close>

definition pushTime :: "(rat \<Rightarrow> string) \<Rightarrow> cell \<Rightarrow> string list \<Rightarrow> string list" where
  "pushTime nts c xs = (if truthy c then xs @ [normalizeTime nts c] else xs)"

text \<open>One iteration of the loop of \<^verbatim>\<open>parseSchedule\<close>.\<close>

definition step :: "(rat \<Rightarrow> string) \<Rightarrow> pstate \<Rightarrow> row \<Rightarrow> pstate" where
  "step nts s row =
     (let c0 = cellText nts (cellAt row 0);
          c1 = cellAt row 1;
          c2 = cellText nts (cellAt row 2);
          c3 = cellText nts (cellAt row 3);
          c4 = cellAt row 4
      in
      if c0 = [] \<and> \<not> truthy c1 \<and> c2 = [] \<and> c3 = [] \<and> \<not> truthy c4 then s
      else if fridayMarker c0 then s\<lparr>mode := Friday, current := None\<rparr>
      else if headerRegex c0 \<or> routeDetailsRegex c3 then s\<lparr>current := None\<rparr>
      else if looksLikeRouteCode c0 then
        (let r = \<lparr>code = c0, name = c2, details = c3,
                  toDSC = pushTime nts c1 [], fromDSC = pushTime nts c4 []\<rparr>;
             a = length (store s)
         in if mode s = Friday
            then s\<lparr>current := Some a, store := store s @ [r], routesFriday := routesFriday s @ [a]\<rparr>
            else s\<lparr>current := Some a, store := store s @ [r], routesRegular := routesRegular s @ [a]\<rparr>)
      else
        (case current s of
           Some a \<Rightarrow>
             if c0 = [] then
               s\<lparr>store := (store s)[a := (store s ! a)
                     \<lparr>toDSC := pushTime nts c1 (toDSC (store s ! a)),
                      fromDSC := pushTime nts c4 (fromDSC (store s ! a))\<rparr>]\<rparr>
             else s
         | None \<Rightarrow> s))"

definition run :: "(rat \<Rightarrow> string) \<Rightarrow> row list \<Rightarrow> pstate" where
  "run nts rows = foldl (step nts) initState rows"

text \<open>\<^verbatim>\<open>Array.from(new Set(xs))\<close>: a set keeps its members in order of insertion, and
  adding a member again changes nothing.\<close>

definition arrayFromSet :: "'a list \<Rightarrow> 'a list" where
  "arrayFromSet xs = foldl (\<lambda>acc x. if x \<in> set acc then acc else acc @ [x]) [] xs"

definition dedupRoute :: "route \<Rightarrow> route" where
  "dedupRoute r = r\<lparr>toDSC := arrayFromSet (toDSC r), fromDSC := arrayFromSet (fromDSC r)\<rparr>"

text \<open>The post-pass over \<^verbatim>\<open>[...routesRegular, ...routesFriday]\<close>, and the result.\<close>

definition postPass :: "route list \<Rightarrow> nat list \<Rightarrow> route list" where
  "postPass st refs = foldl (\<lambda>st a. st[a := dedupRoute (st ! a)]) st refs"

definition parseSchedule :: "(rat \<Rightarrow> string) \<Rightarrow> row list \<Rightarrow> route list \<times> route list" where
  "parseSchedule nts rows =
     (let s = run nts rows;
          st = postPass (store s) (routesRegular s @ routesFriday s)
      in (map (\<lambda>a. st ! a) (routesRegular s), map (\<lambda>a. st ! a) (routesFriday s)))"

text \<open>The badge of \<^verbatim>\<open>routeCard\<close>: \<^verbatim>\<open>r.code.startsWith("F") ? "Friday" : "Regular"\<close>.\<close>

definition startsWithF :: "string \<Rightarrow> bool" where
  "startsWithF s = (case s of c # cs \<Rightarrow> c = CHR ''F'' | [] \<Rightarrow> False)"

definition badge :: "route \<Rightarrow> string" where
  "badge r = (if startsWithF (code r) then ''Friday'' else ''Regular'')"

section \<open>The filter of the listing\<close>

text \<open>\<^verbatim>\<open>xs.join(" ")\<close> and \<^verbatim>\<open>hay.includes(q)\<close>.\<close>

fun joinSpace :: "string list \<Rightarrow> string" where
  "joinSpace [] = []"
| "joinSpace [x] = x"
| "joinSpace (x # y # ys) = x @ '' '' @ joinSpace (y # ys)"

fun includesStr :: "string \<Rightarrow> string \<Rightarrow> bool" where
  "includesStr [] q = (q = [])"
| "includesStr (c # cs) q = (prefix q (c # cs) \<or> includesStr cs q)"

definition haystack :: "route \<Rightarrow> string" where
  "haystack r = toLowerCase (joinSpace ([code r, name r, details r] @ toDSC r @ fromDSC r))"

text \<open>The filtering part of \<^verbatim>\<open>render\<close>: \<open>list\<close> is the partition chosen by the toggle,
  \<open>selectedCode\<close> the value of the drop-down and \<open>inputValue\<close> the text of the search box.\<close>

definition filterRoutes :: "route list \<Rightarrow> string \<Rightarrow> string \<Rightarrow> route list" where
  "filterRoutes list selectedCode inputValue =
     (let q = toLowerCase inputValue;
          filtered = list;
          filtered = (if selectedCode \<noteq> [] then filter (\<lambda>r. code r = selectedCode) filtered
                      else filtered);
          filtered = (if q \<noteq> [] then filter (\<lambda>r. includesStr (haystack r) q) filtered
                      else filtered)
      in filtered)"

section \<open>Notions used in the statements\<close>

text \<open>A text in which every white-space character is a space and no two are adjacent:
  the form \<^verbatim>\<open>replace(/\s+/g, " ")\<close> produces.\<close>

fun wsNormal :: "string \<Rightarrow> bool" where
  "wsNormal [] = True"
| "wsNormal [c] = (is_space c \<longrightarrow> c = CHR '' '')"
| "wsNormal (c # d # cs) = ((is_space c \<longrightarrow> c = CHR '' '' \<and> \<not> is_space d) \<and> wsNormal (d # cs))"

definition cleanSpaces :: "string \<Rightarrow> string" where
  "cleanSpaces s = trim (collapseSpaces s)"

text \<open>The shape of a formatted time: one or two hour digits, a colon, two minute digits,
  and possibly AM or PM in capitals, with or without a space before it.\<close>

definition canonTime :: "string \<Rightarrow> bool" where
  "canonTime r = (\<exists>h a b suf. r = h @ CHR '':'' # a # b # suf \<and>
      (length h = 1 \<or> length h = 2) \<and> list_all is_digit h \<and> is_digit a \<and> is_digit b \<and>
      suf \<in> {[], ''AM'', ''PM'', '' AM'', '' PM''})"

text \<open>The members of a sequence at the positions where a value occurs for the first
  time, in the order of these positions.\<close>

definition firstOccurrences :: "'a list \<Rightarrow> 'a list" where
  "firstOccurrences xs =
     map (\<lambda>i. xs ! i) (filter (\<lambda>i. xs ! i \<notin> set (take i xs)) [0..<length xs])"

text \<open>The rows on which the loop reaches the branch that creates a route: not skipped as
  empty, not a Friday marker, not a header, and cell 0 looks like a route code.\<close>

definition rowEmpty :: "(rat \<Rightarrow> string) \<Rightarrow> row \<Rightarrow> bool" where
  "rowEmpty nts row =
     (cellText nts (cellAt row 0) = [] \<and> \<not> truthy (cellAt row 1) \<and>
      cellText nts (cellAt row 2) = [] \<and> cellText nts (cellAt row 3) = [] \<and>
      \<not> truthy (cellAt row 4))"

definition isMarkerRow :: "(rat \<Rightarrow> string) \<Rightarrow> row \<Rightarrow> bool" where
  "isMarkerRow nts row = fridayMarker (cellText nts (cellAt row 0))"

definition isHeaderRow :: "(rat \<Rightarrow> string) \<Rightarrow> row \<Rightarrow> bool" where
  "isHeaderRow nts row =
     (headerRegex (cellText nts (cellAt row 0)) \<or> routeDetailsRegex (cellText nts (cellAt row 3)))"

definition opensRoute :: "(rat \<Rightarrow> string) \<Rightarrow> row \<Rightarrow> bool" where
  "opensRoute nts row =
     (\<not> rowEmpty nts row \<and> \<not> isMarkerRow nts row \<and> \<not> isHeaderRow nts row \<and>
      looksLikeRouteCode (cellText nts (cellAt row 0)))"

text \<open>The route object a route-opening row creates.\<close>

definition newRoute :: "(rat \<Rightarrow> string) \<Rightarrow> row \<Rightarrow> route" where
  "newRoute nts row =
     \<lparr>code = cellText nts (cellAt row 0), name = cellText nts (cellAt row 2),
      details = cellText nts (cellAt row 3),
      toDSC = pushTime nts (cellAt row 1) [], fromDSC = pushTime nts (cellAt row 4) []\<rparr>"

text \<open>Every address held by the two arrays points into the store.\<close>

definition refsValid :: "pstate \<Rightarrow> bool" where
  "refsValid s = (\<forall>a \<in> set (routesRegular s) \<union> set (routesFriday s). a < length (store s))"

text \<open>The filter as the specification words it: a route is kept when the selected code is
  empty or equals its code, and the query is empty or occurs, without regard to case, in
  the space-joined code, name, details and times.\<close>

definition spec_keep :: "string \<Rightarrow> string \<Rightarrow> route \<Rightarrow> bool" where
  "spec_keep selectedCode query r =
     ((selectedCode = [] \<or> code r = selectedCode) \<and>
      (query = [] \<or>
       includesStr (toLowerCase (joinSpace ([code r, name r, details r] @ toDSC r @ fromDSC r)))
                   (toLowerCase query)))"

section \<open>Sample data\<close>

text \<open>A rendering of numbers that is right on integers, the rows of the classifier
  scenario, and further rows and routes for the examples.\<close>

definition integerNts :: "rat \<Rightarrow> string" where
  "integerNts q = intToString \<lfloor>q\<rfloor>"

definition fridayRow :: row where
  "fridayRow = [CStr ''Friday Schedule'']"

definition r1Row :: row where
  "r1Row = [CStr ''R1'', CStr ''08:00'', CStr ''Main Route'', CStr ''Via X'', CNum (Finite (3 / 4))]"

definition r1MoreRow :: row where
  "r1MoreRow = [CStr [], CStr ''09:00'', CStr [], CStr [], CNum (Finite (4 / 5))]"

definition scenarioRows :: "row list" where
  "scenarioRows = [fridayRow, [], r1Row, r1MoreRow]"

definition noteRow :: row where
  "noteRow = [CStr ''Note'', CStr ''10:00'', CStr [], CStr [], CStr ''17:00'']"

definition spaceRow :: row where
  "spaceRow = [CStr '' '', CStr ''10:00'']"

definition repeatRows :: "row list" where
  "repeatRows =
     [[CStr ''R2'', CStr ''08:00'', CStr ''Campus'', CStr [], CStr ''5 pm''],
      [CStr [], CStr ''08:00'', CStr [], CStr [], CStr ''6 pm''],
      [CStr [], CStr ''09:00'', CStr [], CStr [], CStr ''5 pm'']]"

definition repeatRoute :: route where
  "repeatRoute = \<lparr>code = ''R2'', name = ''Campus'', details = [],
                   toDSC = [''08:00'', ''09:00''], fromDSC = [''5 pm'', ''6 pm'']\<rparr>"

definition routeMain :: route where
  "routeMain = \<lparr>code = ''R1'', name = ''Main'', details = [], toDSC = [''08:00''], fromDSC = []\<rparr>"

definition routeCampus :: route where
  "routeCampus = \<lparr>code = ''R2'', name = ''Campus'', details = [], toDSC = [], fromDSC = [''6:00 PM'']\<rparr>"

section \<open>White space and the shape of times\<close>


lemma is_space_blank [simp]: "is_space (CHR '' '')"
  by (simp add: is_space_def)

lemma collapse_nonspace: "\<not> is_space d \<Longrightarrow> collapseSpaces (d # cs) = d # collapseSpaces cs"
  by (cases cs) simp_all

lemma wsNormal_nonspace: "\<not> is_space c \<Longrightarrow> wsNormal (c # x) = wsNormal x"
  by (cases x) simp_all

lemma wsNormal_collapse: "wsNormal (collapseSpaces s)"
proof (induction s rule: collapseSpaces.induct)
  case 1
  show ?case by simp
next
  case (2 c)
  show ?case by simp
next
  case (3 c d cs)
  show ?case
  proof (cases "is_space c")
    case False
    with 3 show ?thesis by (simp add: wsNormal_nonspace)
  next
    case True
    show ?thesis
    proof (cases "is_space d")
      case True
      with \<open>is_space c\<close> 3 show ?thesis by simp
    next
      case False
      with \<open>is_space c\<close> 3 show ?thesis
        by (simp add: collapse_nonspace wsNormal_nonspace)
    qed
  qed
qed

lemma collapse_wsNormal: "wsNormal s \<Longrightarrow> collapseSpaces s = s"
  by (induction s rule: collapseSpaces.induct) auto

lemma wsNormal_tl: "wsNormal (c # s) \<Longrightarrow> wsNormal s"
  by (cases s) simp_all

lemma wsNormal_dropWhile: "wsNormal s \<Longrightarrow> wsNormal (dropWhile P s)"
  by (induction s) (auto dest: wsNormal_tl)

lemma wsNormal_append_left: "wsNormal (xs @ ys) \<Longrightarrow> wsNormal xs"
proof (induction xs rule: wsNormal.induct)
  case 1
  show ?case by simp
next
  case (2 c)
  then show ?case by (cases ys) simp_all
next
  case (3 c d cs)
  then show ?case by simp
qed

lemma wsNormal_append_right: "wsNormal (xs @ ys) \<Longrightarrow> wsNormal ys"
  by (induction xs) (auto dest: wsNormal_tl)

lemma wsNormal_head: "wsNormal (w # r) \<Longrightarrow> is_space w \<Longrightarrow> w = CHR '' ''"
  by (cases r) simp_all

lemma trimEnd_split: "s = trimEnd s @ rev (takeWhile is_space (rev s))"
proof -
  have "rev (takeWhile is_space (rev s) @ dropWhile is_space (rev s)) = rev (rev s)"
    by (simp only: takeWhile_dropWhile_id)
  then have "rev (dropWhile is_space (rev s)) @ rev (takeWhile is_space (rev s)) = s"
    by (simp only: rev_append rev_rev_ident)
  then show ?thesis by (simp only: trimEnd_def)
qed

lemma wsNormal_trimEnd: "wsNormal s \<Longrightarrow> wsNormal (trimEnd s)"
  using trimEnd_split [of s] wsNormal_append_left by metis

lemma wsNormal_trim: "wsNormal s \<Longrightarrow> wsNormal (trim s)"
  by (simp add: trim_def wsNormal_trimEnd wsNormal_dropWhile)

lemma trimEnd_Nil [simp]: "trimEnd [] = []"
  by (simp add: trimEnd_def)

lemma trimEnd_Cons: "trimEnd (a # s) = (if trimEnd s = [] \<and> is_space a then [] else a # trimEnd s)"
  by (auto simp: trimEnd_def dropWhile_append)

lemma trimEnd_idem: "trimEnd (trimEnd s) = trimEnd s"
  by (simp add: trimEnd_def)

lemma dropWhile_trimEnd: "s = [] \<or> \<not> is_space (hd s) \<Longrightarrow> dropWhile is_space (trimEnd s) = trimEnd s"
  by (cases s) (auto simp: trimEnd_Cons)

lemma trim_idem: "trim (trim s) = trim s"
proof -
  have "dropWhile is_space s = [] \<or> \<not> is_space (hd (dropWhile is_space s))"
    by (metis hd_dropWhile)
  then show ?thesis
    by (simp add: trim_def dropWhile_trimEnd trimEnd_idem)
qed

lemma wsNormal_clean: "wsNormal (cleanSpaces s)"
  by (simp add: cleanSpaces_def wsNormal_trim wsNormal_collapse)

lemma cleanSpaces_idem: "cleanSpaces (cleanSpaces s) = cleanSpaces s"
proof -
  have "collapseSpaces (cleanSpaces s) = cleanSpaces s"
    by (rule collapse_wsNormal) (rule wsNormal_clean)
  then show ?thesis
    by (simp add: cleanSpaces_def trim_idem)
qed


lemma digit_not_space: "is_digit c \<Longrightarrow> \<not> is_space c"
  by (auto simp: is_digit_def is_space_def)

lemma digit_upper: "is_digit c \<Longrightarrow> upperChar c = c"
  by (auto simp: is_digit_def) (simp_all add: upperChar_def)

lemma digit_neq [simp]: "is_digit c \<Longrightarrow> c \<noteq> CHR ''T''" "is_digit c \<Longrightarrow> c \<noteq> CHR ''.''"
  "is_digit c \<Longrightarrow> c \<noteq> CHR '':''"
  by (auto simp: is_digit_def)

lemma not_digit_consts [simp]: "\<not> is_digit (CHR '':'')" "\<not> is_digit (CHR ''.'')"
  "\<not> is_digit (CHR '' '')" "\<not> is_digit (CHR ''A'')" "\<not> is_digit (CHR ''P'')"
  by (simp_all add: is_digit_def)

lemma not_space_consts [simp]: "\<not> is_space (CHR '':'')" "\<not> is_space (CHR ''A'')"
  "\<not> is_space (CHR ''P'')" "\<not> is_space (CHR ''M'')"
  by (simp_all add: is_space_def)

lemma upper_consts [simp]: "upperChar (CHR '':'') = CHR '':''" "upperChar (CHR '' '') = CHR '' ''"
  "upperChar (CHR ''A'') = CHR ''A''" "upperChar (CHR ''P'') = CHR ''P''"
  "upperChar (CHR ''M'') = CHR ''M''" "upperChar (CHR ''t'') = CHR ''T''"
  "upperChar (CHR ''o'') = CHR ''O''"
  by (simp_all add: upperChar_def)


lemma takeWhile_digits:
  "list_all is_digit h \<Longrightarrow> \<not> is_digit c \<Longrightarrow> takeWhile is_digit (h @ c # r) = h"
  by (induction h) auto

lemma dropWhile_digits:
  "list_all is_digit h \<Longrightarrow> \<not> is_digit c \<Longrightarrow> dropWhile is_digit (h @ c # r) = c # r"
  by (induction h) auto

lemma is_ampm_consts [simp]: "is_ampm ''AM''" "is_ampm ''PM''" "\<not> is_ampm []"
  by (simp_all add: is_ampm_def)

lemma timeMatch_canon: "canonTime r \<Longrightarrow> timeMatch r"
  unfolding canonTime_def timeMatch_def
  by (auto simp: takeWhile_digits dropWhile_digits)

lemma dotted_canon: "canonTime r \<Longrightarrow> dottedMatch r = None"
  unfolding canonTime_def dottedMatch_def
  by (auto simp: takeWhile_digits dropWhile_digits)

lemma digits_upper: "list_all is_digit h \<Longrightarrow> map upperChar h = h"
  by (induction h) (auto simp: digit_upper)

lemma upper_canon: "canonTime r \<Longrightarrow> toUpperCase r = r"
  unfolding canonTime_def toUpperCase_def
  by (auto simp: digits_upper digit_upper)

lemma containsTo_Cons: "upperChar c \<noteq> CHR ''T'' \<Longrightarrow> containsTo (c # s) = containsTo s"
  by (simp add: containsTo_def)

lemma containsTo_digits: "list_all is_digit h \<Longrightarrow> containsTo (h @ s) = containsTo s"
  by (induction h) (auto simp: containsTo_Cons digit_upper)

lemma noTo_canon: "canonTime r \<Longrightarrow> \<not> containsTo r"
  unfolding canonTime_def
  by (auto simp: containsTo_digits containsTo_Cons digit_upper) (simp_all add: containsTo_def)

lemma wsNormal_digits: "list_all is_digit h \<Longrightarrow> wsNormal (h @ s) = wsNormal s"
  by (induction h) (auto simp: wsNormal_nonspace digit_not_space)

lemma wsNormal_canon: "canonTime r \<Longrightarrow> wsNormal r"
  unfolding canonTime_def
  by (auto simp: wsNormal_digits wsNormal_nonspace digit_not_space)

lemma trimEnd_last: "s \<noteq> [] \<Longrightarrow> \<not> is_space (last s) \<Longrightarrow> trimEnd s = s"
  by (cases s rule: rev_cases) (auto simp: trimEnd_def)

lemma trim_canon: "canonTime r \<Longrightarrow> trim r = r"
proof -
  assume "canonTime r"
  then obtain h a b suf where r: "r = h @ CHR '':'' # a # b # suf"
    and len: "length h = 1 \<or> length h = 2" and dh: "list_all is_digit h"
    and da: "is_digit a" and db: "is_digit b"
    and suf: "suf \<in> {[], ''AM'', ''PM'', '' AM'', '' PM''}"
    unfolding canonTime_def by blast
  from len dh obtain x h' where h: "h = x # h'" and "is_digit x"
    by (cases h) auto
  then have "dropWhile is_space r = r"
    by (simp add: r digit_not_space)
  moreover have "\<not> is_space (last r)"
    using suf db by (auto simp: r digit_not_space)
  moreover have "r \<noteq> []" by (simp add: r)
  ultimately show ?thesis
    by (simp add: trim_def trimEnd_last)
qed

lemma canonTime_fixed: "canonTime r \<Longrightarrow> normalizeText r = r"
  by (simp add: normalizeText_def trim_canon collapse_wsNormal wsNormal_canon noTo_canon
      rewriteDotted_def dotted_canon timeMatch_canon upper_canon)


lemma canonTimeI:
  assumes "r = h @ CHR '':'' # a # b # suf" "length h = 1 \<or> length h = 2"
    "list_all is_digit h" "is_digit a" "is_digit b"
    "suf \<in> {[], ''AM'', ''PM'', '' AM'', '' PM''}"
  shows "canonTime r"
  unfolding canonTime_def
  apply (rule exI [of _ h], rule exI [of _ a], rule exI [of _ b], rule exI [of _ suf])
  using assms by simp

lemma list_all_takeWhile: "list_all P (takeWhile P s)"
  by (induction s) auto

lemma dotted_some:
  assumes "dottedMatch t = Some (h, m, ap)"
  shows "list_all is_digit h \<and> (length h = 1 \<or> length h = 2) \<and>
         (\<exists>a b. m = [a, b] \<and> is_digit a \<and> is_digit b) \<and> is_ampm ap"
  using assms unfolding dottedMatch_def Let_def
  by (auto simp: list_all_takeWhile split: if_splits list.splits)

lemma rewrite_canon:
  assumes "dottedMatch t = Some (h, m, ap)"
  shows "canonTime (toUpperCase (h @ '':'' @ m @ '' '' @ ap))"
proof -
  from dotted_some [OF assms] obtain a b where dh: "list_all is_digit h"
    and len: "length h = 1 \<or> length h = 2" and m: "m = [a, b]"
    and da: "is_digit a" and db: "is_digit b" and ap: "is_ampm ap"
    by blast
  have eq: "toUpperCase (h @ '':'' @ m @ '' '' @ ap)
      = h @ CHR '':'' # a # b # (CHR '' '' # map upperChar ap)"
    by (simp add: toUpperCase_def m digits_upper dh digit_upper da db)
  have suf: "CHR '' '' # map upperChar ap \<in> {[], ''AM'', ''PM'', '' AM'', '' PM''}"
    using ap by (auto simp: is_ampm_def)
  show ?thesis
    by (rule canonTimeI [OF eq len dh da db suf])
qed

lemma rewrite_timeMatch:
  assumes "dottedMatch t = Some (h, m, ap)"
  shows "timeMatch (h @ '':'' @ m @ '' '' @ ap)"
proof -
  from dotted_some [OF assms] obtain a b where dh: "list_all is_digit h"
    and len: "length h = 1 \<or> length h = 2" and m: "m = [a, b]"
    and da: "is_digit a" and db: "is_digit b" and ap: "is_ampm ap"
    by blast
  show ?thesis
    unfolding timeMatch_def Let_def
    using len da db ap
    by (simp add: m takeWhile_digits dropWhile_digits dh)
qed

lemma timeMatch_upper_canon:
  assumes tm: "timeMatch t" and ws: "wsNormal t"
  shows "canonTime (toUpperCase t)"
proof -
  define h where "h = takeWhile is_digit t"
  have t: "t = h @ dropWhile is_digit t" by (simp add: h_def)
  have dh: "list_all is_digit h" by (simp add: h_def list_all_takeWhile)
  from tm obtain a b r where len: "length h = 1 \<or> length h = 2"
    and d: "dropWhile is_digit t = CHR '':'' # a # b # r"
    and da: "is_digit a" and db: "is_digit b"
    and r: "r = [] \<or> is_ampm r \<or> (\<exists>w r'. r = w # r' \<and> is_space w \<and> is_ampm r')"
    unfolding timeMatch_def Let_def h_def
    by (auto split: list.splits)
  have t': "t = h @ CHR '':'' # a # b # r" using t d by simp
  have "wsNormal r"
  proof -
    have "wsNormal (CHR '':'' # a # b # r)"
      using ws t' wsNormal_append_right by metis
    then show ?thesis by (blast dest: wsNormal_tl)
  qed
  then have suf: "map upperChar r \<in> {[], ''AM'', ''PM'', '' AM'', '' PM''}"
    using r by (auto simp: is_ampm_def dest: wsNormal_head)
  have eq: "toUpperCase t = h @ CHR '':'' # a # b # map upperChar r"
    by (subst t') (simp add: toUpperCase_def digits_upper dh digit_upper da db)
  show ?thesis
    by (rule canonTimeI [OF eq len dh da db suf])
qed

lemma clean_fixed: "trim (collapseSpaces (trim (collapseSpaces s))) = trim (collapseSpaces s)"
  using cleanSpaces_idem [of s] by (simp add: cleanSpaces_def)

lemma normalizeText_clean:
  "normalizeText (trim (collapseSpaces s)) = normalizeText s"
  by (simp add: normalizeText_def clean_fixed)

lemma normalizeText_idem: "normalizeText (normalizeText s) = normalizeText s"
proof -
  define t where "t = trim (collapseSpaces s)"
  have wt: "wsNormal t" using wsNormal_clean [of s] by (simp add: t_def cleanSpaces_def)
  have ft: "trim (collapseSpaces t) = t" by (simp add: t_def clean_fixed)
  show ?thesis
  proof (cases "containsTo t")
    case True
    then have "normalizeText s = t" by (simp add: normalizeText_def t_def)
    moreover have "normalizeText t = t" using True by (simp add: normalizeText_def ft)
    ultimately show ?thesis by simp
  next
    case noTo: False
    show ?thesis
    proof (cases "dottedMatch t")
      case (Some g)
      obtain h m ap where g: "g = (h, m, ap)" by (cases g)
      have dm: "dottedMatch t = Some (h, m, ap)" using Some g by simp
      have "normalizeText s = toUpperCase (h @ '':'' @ m @ '' '' @ ap)"
        using noTo rewrite_timeMatch [OF dm]
        by (simp add: normalizeText_def t_def [symmetric] rewriteDotted_def dm)
      then show ?thesis
        using canonTime_fixed [OF rewrite_canon [OF dm]] by simp
    next
      case None
      show ?thesis
      proof (cases "timeMatch t")
        case True
        have "normalizeText s = toUpperCase t"
          using noTo None True
          by (simp add: normalizeText_def t_def [symmetric] rewriteDotted_def)
        then show ?thesis
          using canonTime_fixed [OF timeMatch_upper_canon [OF True wt]] by simp
      next
        case False
        have "normalizeText s = t"
          using noTo None False
          by (simp add: normalizeText_def t_def [symmetric] rewriteDotted_def)
        moreover have "normalizeText t = t"
          using noTo None False
          by (simp add: normalizeText_def ft rewriteDotted_def)
        ultimately show ?thesis by simp
      qed
    qed
  qed
qed

section \<open>Properties of time normalisation\<close>


lemma digit_nth: "k < 10 \<Longrightarrow> is_digit (digitChar k)"
  unfolding is_digit_def digitChar_def by (rule nth_mem) simp

lemma natToString_one: "n < 10 \<Longrightarrow> natToString n = [digitChar n]"
  by (simp add: natToString.simps)

lemma natToString_two:
  "10 \<le> n \<Longrightarrow> n < 100 \<Longrightarrow>
   natToString n = [digitChar (n div 10), digitChar (n mod 10)]"
  by (subst natToString.simps) (simp add: natToString_one)

lemma natToString_digits:
  assumes "n < 100"
  shows "list_all is_digit (natToString n) \<and>
         (length (natToString n) = 1 \<or> length (natToString n) = 2)"
proof (cases "n < 10")
  case True
  then show ?thesis by (simp add: natToString_one digit_nth)
next
  case False
  with assms have "n div 10 < 10" by simp
  with False assms show ?thesis by (simp add: natToString_two digit_nth)
qed

lemma padStart2_digits:
  assumes "0 \<le> mm" "mm < 100"
  shows "\<exists>a b. padStart2 (intToString mm) = [a, b] \<and> is_digit a \<and> is_digit b"
proof (cases "mm < 10")
  case True
  with assms have "nat mm < 10" by simp
  then have "padStart2 (intToString mm) = [CHR ''0'', digitChar (nat mm)]"
    using assms by (simp add: padStart2_def intToString_def natToString_one)
  moreover have "is_digit (CHR ''0'')" by (simp add: is_digit_def)
  ultimately show ?thesis using digit_nth [OF \<open>nat mm < 10\<close>] by simp
next
  case False
  with assms have n: "10 \<le> nat mm" "nat mm < 100" by simp_all
  then have "nat mm div 10 < 10" by simp
  then show ?thesis
    using assms n by (simp add: padStart2_def intToString_def natToString_two digit_nth)
qed

lemma js_rem_nonneg: "0 \<le> a \<Longrightarrow> 0 < b \<Longrightarrow> js_rem a b = a mod b"
  by (cases "a = 0") (simp_all add: js_rem_def)

lemma formatTime_canon:
  assumes hh: "0 \<le> hh" and mm: "0 \<le> mm" "mm < 100"
  shows "canonTime (formatTime hh mm)"
proof -
  define h12 where "h12 = (if js_rem hh 12 = 0 then 12 else js_rem hh 12)"
  have r: "js_rem hh 12 = hh mod 12" using hh by (simp add: js_rem_nonneg)
  have "0 \<le> hh mod 12" "hh mod 12 < 12" by simp_all
  then have h12: "0 < h12" "h12 < 100" by (auto simp: h12_def r)
  then have "nat h12 < 100" by simp
  from natToString_digits [OF this] h12
  have dh: "list_all is_digit (intToString h12)"
    and len: "length (intToString h12) = 1 \<or> length (intToString h12) = 2"
    by (simp_all add: intToString_def)
  from padStart2_digits [OF mm] obtain a b
    where p: "padStart2 (intToString mm) = [a, b]" and da: "is_digit a" and db: "is_digit b"
    by blast
  define suf where "suf = CHR '' '' # (if hh \<ge> 12 then ''PM'' else ''AM'')"
  have suf: "suf \<in> {[], ''AM'', ''PM'', '' AM'', '' PM''}" by (simp add: suf_def)
  have eq: "formatTime hh mm = intToString h12 @ CHR '':'' # a # b # suf"
    by (simp add: formatTime_def Let_def h12_def p suf_def)
  show ?thesis by (rule canonTimeI [OF eq len dh da db suf])
qed

lemma js_round_nonneg: "0 \<le> x \<Longrightarrow> 0 \<le> js_round x"
  by (simp add: js_round_def)

lemma floor_div60: "\<lfloor>(of_int n :: rat) / 60\<rfloor> = n div 60"
  by (simp add: floor_divide_of_int_eq [of n 60, where ?'a = rat, simplified])


lemma normalizeTime_fraction:
  assumes "0 \<le> t" "t < 1"
  shows "normalizeTime nts (CNum (Finite t)) =
         formatTime (js_round (t * 1440) div 60) (js_round (t * 1440) mod 60)"
proof -
  have "0 \<le> js_round (t * 1440)" using assms by (simp add: js_round_nonneg)
  then show ?thesis
    using assms by (simp add: Let_def floor_div60 js_rem_nonneg mult.assoc)
qed

lemma normalizeTime_hours:
  assumes "1 < t" "t < 24"
  shows "normalizeTime nts (CNum (Finite t)) =
         formatTime \<lfloor>t\<rfloor> (js_round ((t - of_int \<lfloor>t\<rfloor>) * 60))"
  using assms by (simp add: Let_def)

lemma fraction_bounds:
  assumes "0 \<le> t" "t < 1"
  shows "0 \<le> js_round (t * 1440) div 60 \<and> 0 \<le> js_round (t * 1440) mod 60 \<and>
         js_round (t * 1440) mod 60 < 100"
proof -
  have "0 \<le> js_round (t * 1440)" using assms by (simp add: js_round_nonneg)
  moreover have "js_round (t * 1440) mod 60 < 60" by simp
  ultimately show ?thesis by (simp add: pos_imp_zdiv_nonneg_iff)
qed

lemma hours_bounds:
  assumes "1 < t" "t < 24"
  shows "0 \<le> \<lfloor>t\<rfloor> \<and> \<lfloor>t\<rfloor> < 24 \<and> 0 \<le> js_round ((t - of_int \<lfloor>t\<rfloor>) * 60) \<and>
         js_round ((t - of_int \<lfloor>t\<rfloor>) * 60) < 100"
proof -
  have f: "0 \<le> t - of_int \<lfloor>t\<rfloor>" "t - of_int \<lfloor>t\<rfloor> < 1" by linarith+
  then have "(t - of_int \<lfloor>t\<rfloor>) * 60 + 1 / 2 < 100" by simp
  then have "js_round ((t - of_int \<lfloor>t\<rfloor>) * 60) < 100"
    unfolding js_round_def by (simp add: floor_less_iff)
  moreover have "0 \<le> js_round ((t - of_int \<lfloor>t\<rfloor>) * 60)"
    using f by (simp add: js_round_nonneg)
  moreover have "0 \<le> \<lfloor>t\<rfloor>" using assms by simp
  moreover have "\<lfloor>t\<rfloor> < 24" using assms by (simp add: floor_less_iff)
  ultimately show ?thesis by simp
qed

lemma normalizeTime_CStr_fixed: "normalizeText r = r \<Longrightarrow> normalizeTime nts (CStr r) = r"
  by simp

lemma normalizeTime_text_fixed: "normalizeTime nts (CStr (normalizeText s)) = normalizeText s"
  by (rule normalizeTime_CStr_fixed) (rule normalizeText_idem)

lemma normalizeTime_number_canon:
  assumes "(0 \<le> t \<and> t < 1) \<or> (1 < t \<and> t < 24)"
  shows "canonTime (normalizeTime nts (CNum (Finite t)))"
  using assms
proof
  assume a: "0 \<le> t \<and> t < 1"
  then show ?thesis
    using fraction_bounds [of t] by (simp only: normalizeTime_fraction) (simp add: formatTime_canon)
next
  assume a: "1 < t \<and> t < 24"
  then show ?thesis
    using hours_bounds [of t] by (simp only: normalizeTime_hours) (simp add: formatTime_canon)
qed

text \<open>
  Claim C10. \<^verbatim>\<open>normalizeTime\<close> is idempotent: applied to its own result (a string), it
  returns that result, whatever the input cell was (missing, string or number).
\<close>

theorem normalizeTime_idempotent:
  "normalizeTime nts (CStr (normalizeTime nts x)) = normalizeTime nts x"
proof (cases x)
  case Undefined
  then show ?thesis by simp
next
  case (CStr s)
  then show ?thesis by (simp add: normalizeText_idem)
next
  case (CNum n)
  show ?thesis
  proof (cases n)
    case (Finite t)
    show ?thesis
    proof (cases "(0 \<le> t \<and> t < 1) \<or> (1 < t \<and> t < 24)")
      case True
      from canonTime_fixed [OF normalizeTime_number_canon [OF True]]
      show ?thesis unfolding CNum Finite by (rule normalizeTime_CStr_fixed)
    next
      case False
      then have "normalizeTime nts (CNum (Finite t)) = normalizeText (nts t)" by auto
      then show ?thesis unfolding CNum Finite by (simp only: normalizeTime_text_fixed)
    qed
  qed (simp_all add: CNum normalizeText_idem)
qed


theorem normalizeTime_idempotent_witness:
  "normalizeTime integerNts (CStr (normalizeTime integerNts (CStr ''6.05pm''))) = ''6:05 PM''"
proof -
  have e: "normalizeTime integerNts (CStr ''6.05pm'') = ''6:05 PM''" by code_simp
  show ?thesis
    using normalizeTime_idempotent [of integerNts "CStr ''6.05pm''"] by (simp only: e)
qed

lemma normalizeTime_examples:
  "normalizeTime nts (CNum (Finite (1 / 2))) = ''12:00 PM'' \<and>
   normalizeTime nts (CNum (Finite (1 / 4))) = ''6:00 AM'' \<and>
   normalizeTime nts (CNum (Finite (37 / 2))) = ''6:30 PM''"
  by code_simp

text \<open>
  Claim C4. The three examples hold (lemma above). The number 4095/4096 is the time
  23:59:39; its products with 24 and then with 60 are 23.994140625 and 1439.6484375, both
  exact in binary floating point. The minutes round to 1440, the hour is 24 and the minute
  0, and \<^verbatim>\<open>formatTime\<close>, which never reduces the hour below 24, prints 12:00 PM: noon, for
  a time in the last half minute before midnight, whose 12-hour rendering is 12:00 AM.
\<close>

theorem normalizeTime_before_midnight:
  "js_round (4095 / 4096 * 24 * 60) = 1440 \<and>
   \<lfloor>(of_int (js_round (4095 / 4096 * 24 * 60)) :: rat) / 60\<rfloor> = 24 \<and>
   js_rem (js_round (4095 / 4096 * 24 * 60)) 60 = 0 \<and>
   formatTime 24 0 = ''12:00 PM'' \<and>
   normalizeTime nts (CNum (Finite (4095 / 4096))) = ''12:00 PM''"
  by code_simp

lemma normalizeText_cases:
  "normalizeText s =
     (let t = trim (collapseSpaces s) in
      if containsTo t then t
      else case dottedMatch t of
             Some (h, m, ap) \<Rightarrow> h @ '':'' @ m @ '' '' @ toUpperCase ap
           | None \<Rightarrow> if timeMatch t then toUpperCase t else t)"
proof (cases "dottedMatch (trim (collapseSpaces s))")
  case None
  then show ?thesis
    by (simp add: normalizeText_def rewriteDotted_def Let_def)
next
  case (Some g)
  obtain h m ap where g: "g = (h, m, ap)" by (cases g)
  have dm: "dottedMatch (trim (collapseSpaces s)) = Some (h, m, ap)" using Some g by simp
  from dotted_some [OF dm] obtain a b where dh: "list_all is_digit h"
    and m: "m = [a, b]" and da: "is_digit a" and db: "is_digit b" by blast
  have up: "toUpperCase (h @ '':'' @ m @ '' '' @ ap) = h @ '':'' @ m @ '' '' @ toUpperCase ap"
    by (simp add: toUpperCase_def m digits_upper dh digit_upper da db)
  show ?thesis
    using rewrite_timeMatch [OF dm] up
    by (simp add: normalizeText_def rewriteDotted_def Let_def dm)
qed

lemma normalizeText_Nil: "normalizeText [] = []"
  by code_simp

text \<open>
  Claim C9. On every string \<^verbatim>\<open>normalizeTime\<close> returns a string, as follows. Let \<open>t\<close> be
  the input with its white space collapsed and trimmed. If \<open>t\<close> contains "to" it is the
  result; if \<open>t\<close> has the dotted form (one or two digits, a dot, two digits, AM or PM) the
  result is hours, colon, minutes, a space and the AM or PM in capitals; if \<open>t\<close> has the
  form H:MM with or without AM or PM the result is \<open>t\<close> in upper case; any other \<open>t\<close> is
  the result as it is. In particular \<^verbatim>\<open>"5:30 to 6:00 PM"\<close> comes back unchanged and
  \<^verbatim>\<open>"6.05pm"\<close> gives \<^verbatim>\<open>"6:05 PM"\<close>.
\<close>

theorem normalizeTime_string:
  "normalizeTime nts (CStr s) =
     (let t = trim (collapseSpaces s) in
      if containsTo t then t
      else case dottedMatch t of
             Some (h, m, ap) \<Rightarrow> h @ '':'' @ m @ '' '' @ toUpperCase ap
           | None \<Rightarrow> if timeMatch t then toUpperCase t else t) \<and>
   normalizeTime nts (CStr ''5:30 to 6:00 PM'') = ''5:30 to 6:00 PM'' \<and>
   normalizeTime nts (CStr ''6.05pm'') = ''6:05 PM''"
proof (intro conjI)
  have "normalizeTime nts (CStr s) = normalizeText s"
    by (cases "s = []") (simp_all add: normalizeText_Nil)
  then show "normalizeTime nts (CStr s) =
     (let t = trim (collapseSpaces s) in
      if containsTo t then t
      else case dottedMatch t of
             Some (h, m, ap) \<Rightarrow> h @ '':'' @ m @ '' '' @ toUpperCase ap
           | None \<Rightarrow> if timeMatch t then toUpperCase t else t)"
    by (simp only: normalizeText_cases)
next
  show "normalizeTime nts (CStr ''5:30 to 6:00 PM'') = ''5:30 to 6:00 PM''" by code_simp
next
  show "normalizeTime nts (CStr ''6.05pm'') = ''6:05 PM''" by code_simp
qed

theorem normalizeTime_string_witness:
  "normalizeTime integerNts (CStr ''6.05pm'') = ''6:05 PM''"
  using normalizeTime_string [of integerNts "[]"] by (rule conjunct2 [THEN conjunct2])

section \<open>Properties of the parser\<close>


subsection \<open>One iteration, by the kind of row\<close>

lemma fridayMarker_Nil [simp]: "\<not> fridayMarker []"
  by (simp add: fridayMarker_def lit_ws_lit_def)

lemma marker_not_empty: "isMarkerRow nts row \<Longrightarrow> \<not> rowEmpty nts row"
  by (auto simp: isMarkerRow_def rowEmpty_def)

lemma step_alt:
  "step nts s row =
     (if rowEmpty nts row then s
      else if isMarkerRow nts row then s\<lparr>mode := Friday, current := None\<rparr>
      else if isHeaderRow nts row then s\<lparr>current := None\<rparr>
      else if looksLikeRouteCode (cellText nts (cellAt row 0)) then
        (if mode s = Friday
         then s\<lparr>current := Some (length (store s)), store := store s @ [newRoute nts row],
                routesFriday := routesFriday s @ [length (store s)]\<rparr>
         else s\<lparr>current := Some (length (store s)), store := store s @ [newRoute nts row],
                routesRegular := routesRegular s @ [length (store s)]\<rparr>)
      else
        (case current s of
           Some a \<Rightarrow>
             if cellText nts (cellAt row 0) = [] then
               s\<lparr>store := (store s)[a := (store s ! a)
                     \<lparr>toDSC := pushTime nts (cellAt row 1) (toDSC (store s ! a)),
                      fromDSC := pushTime nts (cellAt row 4) (fromDSC (store s ! a))\<rparr>]\<rparr>
             else s
         | None \<Rightarrow> s))"
  unfolding step_def rowEmpty_def isMarkerRow_def isHeaderRow_def newRoute_def Let_def
  by (rule refl)

lemma step_empty: "rowEmpty nts row \<Longrightarrow> step nts s row = s"
  by (simp add: step_alt)

lemma step_marker:
  "isMarkerRow nts row \<Longrightarrow> step nts s row = s\<lparr>mode := Friday, current := None\<rparr>"
  using marker_not_empty [of nts row] by (simp add: step_alt)

lemma step_header:
  "\<not> rowEmpty nts row \<Longrightarrow> \<not> isMarkerRow nts row \<Longrightarrow> isHeaderRow nts row \<Longrightarrow>
   step nts s row = s\<lparr>current := None\<rparr>"
  by (simp add: step_alt)

lemma step_opens:
  "opensRoute nts row \<Longrightarrow>
   step nts s row =
     (if mode s = Friday
      then s\<lparr>current := Some (length (store s)), store := store s @ [newRoute nts row],
             routesFriday := routesFriday s @ [length (store s)]\<rparr>
      else s\<lparr>current := Some (length (store s)), store := store s @ [newRoute nts row],
             routesRegular := routesRegular s @ [length (store s)]\<rparr>)"
  by (simp add: step_alt opensRoute_def)

lemma step_other:
  "\<not> rowEmpty nts row \<Longrightarrow> \<not> isMarkerRow nts row \<Longrightarrow> \<not> isHeaderRow nts row \<Longrightarrow>
   \<not> looksLikeRouteCode (cellText nts (cellAt row 0)) \<Longrightarrow>
   step nts s row =
     (case current s of
        Some a \<Rightarrow>
          if cellText nts (cellAt row 0) = [] then
            s\<lparr>store := (store s)[a := (store s ! a)
                  \<lparr>toDSC := pushTime nts (cellAt row 1) (toDSC (store s ! a)),
                   fromDSC := pushTime nts (cellAt row 4) (fromDSC (store s ! a))\<rparr>]\<rparr>
          else s
      | None \<Rightarrow> s)"
  by (simp add: step_alt)

lemma row_kinds:
  obtains (empty) "rowEmpty nts row"
  | (marker) "\<not> rowEmpty nts row" "isMarkerRow nts row"
  | (header) "\<not> rowEmpty nts row" "\<not> isMarkerRow nts row" "isHeaderRow nts row"
  | (opens) "opensRoute nts row"
  | (other) "\<not> rowEmpty nts row" "\<not> isMarkerRow nts row" "\<not> isHeaderRow nts row"
      "\<not> looksLikeRouteCode (cellText nts (cellAt row 0))"
  unfolding opensRoute_def by blast

lemma opens_not_marker: "opensRoute nts row \<Longrightarrow> \<not> isMarkerRow nts row"
  by (simp add: opensRoute_def)

lemma step_mode: "mode (step nts s row) = (if isMarkerRow nts row then Friday else mode s)"
  by (cases nts row rule: row_kinds)
    (auto simp: step_empty step_marker step_header step_opens step_other
      dest: marker_not_empty opens_not_marker split: option.splits)

lemma step_routesFriday:
  "routesFriday (step nts s row) =
     (if opensRoute nts row \<and> mode s = Friday then routesFriday s @ [length (store s)]
      else routesFriday s)"
  by (cases nts row rule: row_kinds)
    (auto simp: step_empty step_marker step_header step_opens step_other opensRoute_def
      split: option.splits)

lemma step_routesRegular:
  "routesRegular (step nts s row) =
     (if opensRoute nts row \<and> mode s \<noteq> Friday then routesRegular s @ [length (store s)]
      else routesRegular s)"
  by (cases nts row rule: row_kinds)
    (auto simp: step_empty step_marker step_header step_opens step_other opensRoute_def
      split: option.splits)

lemma step_length_store:
  "length (store (step nts s row)) =
     (if opensRoute nts row then Suc (length (store s)) else length (store s))"
  by (cases nts row rule: row_kinds)
    (auto simp: step_empty step_marker step_header step_opens step_other opensRoute_def
      split: option.splits)

lemma code_update:
  "k < length st \<Longrightarrow> code (st[a := (st ! a)\<lparr>toDSC := x, fromDSC := y\<rparr>] ! k) = code (st ! k)"
  by (cases "k = a") simp_all

lemma step_code:
  "k < length (store s) \<Longrightarrow> code (store (step nts s row) ! k) = code (store s ! k)"
  by (cases nts row rule: row_kinds)
    (auto simp: step_empty step_marker step_header step_opens step_other nth_append
      code_update split: option.splits)


subsection \<open>The loop\<close>

lemma refsValid_init: "refsValid initState"
  by (simp add: refsValid_def initState_def)

lemma refsValid_step: "refsValid s \<Longrightarrow> refsValid (step nts s row)"
  unfolding refsValid_def
  by (auto simp: step_routesFriday step_routesRegular step_length_store less_Suc_eq
      split: if_splits)

lemma refsValid_foldl: "refsValid s \<Longrightarrow> refsValid (foldl (step nts) s rows)"
  by (induction rows arbitrary: s) (simp_all add: refsValid_step)

lemma refsValid_run: "refsValid (run nts rows)"
  by (simp add: run_def refsValid_foldl refsValid_init)

lemma foldl_mode:
  "mode (foldl (step nts) s rows) =
     (if mode s = Friday \<or> (\<exists>r \<in> set rows. isMarkerRow nts r) then Friday else Regular)"
proof (induction rows arbitrary: s)
  case Nil
  show ?case by (cases "mode s") simp_all
next
  case (Cons r rows)
  show ?case by (simp add: Cons.IH step_mode)
qed

lemma run_mode: "mode (run nts rows) = Friday \<longleftrightarrow> (\<exists>r \<in> set rows. isMarkerRow nts r)"
  by (simp add: run_def foldl_mode initState_def)

lemma foldl_length_store: "length (store s) \<le> length (store (foldl (step nts) s rows))"
proof (induction rows arbitrary: s)
  case Nil
  show ?case by simp
next
  case (Cons r rows)
  have "length (store s) \<le> length (store (step nts s r))"
    by (simp add: step_length_store)
  also have "\<dots> \<le> length (store (foldl (step nts) (step nts s r) rows))"
    by (rule Cons.IH)
  finally show ?case by simp
qed

lemma foldl_keeps_friday:
  "refsValid s \<Longrightarrow> k < length (store s) \<Longrightarrow>
   k \<in> set (routesFriday (foldl (step nts) s rows)) \<longleftrightarrow> k \<in> set (routesFriday s)"
proof (induction rows arbitrary: s)
  case Nil
  show ?case by simp
next
  case (Cons r rows)
  have v: "refsValid (step nts s r)" using Cons.prems(1) by (rule refsValid_step)
  have l: "k < length (store (step nts s r))"
    using Cons.prems(2) by (simp add: step_length_store)
  have "k \<in> set (routesFriday (step nts s r)) \<longleftrightarrow> k \<in> set (routesFriday s)"
    using Cons.prems(2) by (auto simp: step_routesFriday)
  with Cons.IH [OF v l] show ?case by simp
qed

lemma foldl_keeps_regular:
  "refsValid s \<Longrightarrow> k < length (store s) \<Longrightarrow>
   k \<in> set (routesRegular (foldl (step nts) s rows)) \<longleftrightarrow> k \<in> set (routesRegular s)"
proof (induction rows arbitrary: s)
  case Nil
  show ?case by simp
next
  case (Cons r rows)
  have v: "refsValid (step nts s r)" using Cons.prems(1) by (rule refsValid_step)
  have l: "k < length (store (step nts s r))"
    using Cons.prems(2) by (simp add: step_length_store)
  have "k \<in> set (routesRegular (step nts s r)) \<longleftrightarrow> k \<in> set (routesRegular s)"
    using Cons.prems(2) by (auto simp: step_routesRegular)
  with Cons.IH [OF v l] show ?case by simp
qed

lemma foldl_code:
  "k < length (store s) \<Longrightarrow> code (store (foldl (step nts) s rows) ! k) = code (store s ! k)"
proof (induction rows arbitrary: s)
  case Nil
  show ?case by simp
next
  case (Cons r rows)
  have l: "k < length (store (step nts s r))"
    using Cons.prems by (simp add: step_length_store)
  show ?case using Cons.IH [OF l] Cons.prems by (simp add: step_code)
qed

lemma run_append: "run nts (pre @ row # post) = foldl (step nts) (step nts (run nts pre) row) post"
  by (simp add: run_def)

text \<open>
  Claim C8, amended. The loop reads cell 0 as text: a falsy cell as the empty string, and
  the text trimmed of white space. A row that is not skipped as empty, whose cell 0 so read
  is not empty and matches neither the Friday marker nor a header nor the route-code
  pattern, and whose cell 3 is no header either, leaves the whole state of the parser as
  it was: mode, current route, both arrays and every route object.
\<close>

theorem unmatched_row_ignored:
  assumes "\<not> rowEmpty nts row" "cellText nts (cellAt row 0) \<noteq> []"
    and "\<not> isMarkerRow nts row" "\<not> isHeaderRow nts row"
    and "\<not> looksLikeRouteCode (cellText nts (cellAt row 0))"
  shows "step nts s row = s"
  using assms by (simp add: step_other split: option.splits)

theorem unmatched_row_ignored_witness:
  "current (run integerNts scenarioRows) = Some 0 \<and>
   step integerNts (run integerNts scenarioRows) noteRow = run integerNts scenarioRows"
proof -
  have h1: "\<not> rowEmpty integerNts noteRow" by code_simp
  have h2: "cellText integerNts (cellAt noteRow 0) \<noteq> []" by code_simp
  have h3: "\<not> isMarkerRow integerNts noteRow" by code_simp
  have h4: "\<not> isHeaderRow integerNts noteRow" by code_simp
  have h5: "\<not> looksLikeRouteCode (cellText integerNts (cellAt noteRow 0))" by code_simp
  have c: "current (run integerNts scenarioRows) = Some 0" by code_simp
  from unmatched_row_ignored [OF h1 h2 h3 h4 h5, of "run integerNts scenarioRows"] c
  show ?thesis by simp
qed

text \<open>
  The claim as stated speaks of the cell itself. A cell 0 that holds one space is not
  empty and matches no pattern, and the row is not skipped; but its trimmed text is empty,
  so the row continues the current route and its time is appended.
\<close>

theorem unmatched_row_counterexample:
  "cellAt spaceRow 0 = CStr '' '' \<and> truthy (cellAt spaceRow 0) \<and>
   \<not> rowEmpty integerNts spaceRow \<and>
   \<not> fridayMarker '' '' \<and> \<not> headerRegex '' '' \<and> \<not> looksLikeRouteCode '' '' \<and>
   \<not> isMarkerRow integerNts spaceRow \<and> \<not> isHeaderRow integerNts spaceRow \<and>
   \<not> looksLikeRouteCode (cellText integerNts (cellAt spaceRow 0)) \<and>
   current (run integerNts scenarioRows) = Some 0 \<and>
   toDSC (store (run integerNts scenarioRows) ! 0) = [''08:00'', ''09:00''] \<and>
   toDSC (store (step integerNts (run integerNts scenarioRows) spaceRow) ! 0)
     = [''08:00'', ''09:00'', ''10:00''] \<and>
   step integerNts (run integerNts scenarioRows) spaceRow \<noteq> run integerNts scenarioRows"
  by code_simp

subsection \<open>Removing repeated times\<close>

lemma firstOccurrences_snoc:
  "firstOccurrences (xs @ [x]) =
     (if x \<in> set xs then firstOccurrences xs else firstOccurrences xs @ [x])"
proof -
  have a: "filter (\<lambda>i. (xs @ [x]) ! i \<notin> set (take i (xs @ [x]))) [0..<length xs]
         = filter (\<lambda>i. xs ! i \<notin> set (take i xs)) [0..<length xs]"
    by (rule filter_cong) (simp_all add: nth_append)
  have b: "map (\<lambda>i. (xs @ [x]) ! i) (filter (\<lambda>i. xs ! i \<notin> set (take i xs)) [0..<length xs])
         = map (\<lambda>i. xs ! i) (filter (\<lambda>i. xs ! i \<notin> set (take i xs)) [0..<length xs])"
    by (rule map_cong) (simp_all add: nth_append)
  have c: "[0..<length (xs @ [x])] = [0..<length xs] @ [length xs]" by simp
  have d: "filter (\<lambda>i. (xs @ [x]) ! i \<notin> set (take i (xs @ [x]))) [length xs]
         = (if x \<in> set xs then [] else [length xs])"
    by simp
  show ?thesis
    unfolding firstOccurrences_def c filter_append map_append a b d by simp
qed

lemma firstOccurrences_Nil [simp]: "firstOccurrences [] = []"
  by (simp add: firstOccurrences_def)

lemma set_firstOccurrences: "set (firstOccurrences xs) = set xs"
  by (induction xs rule: rev_induct) (auto simp: firstOccurrences_snoc)

lemma distinct_firstOccurrences: "distinct (firstOccurrences xs)"
  by (induction xs rule: rev_induct) (auto simp: firstOccurrences_snoc set_firstOccurrences)

lemma arrayFromSet_snoc:
  "arrayFromSet (xs @ [x]) =
     (if x \<in> set (arrayFromSet xs) then arrayFromSet xs else arrayFromSet xs @ [x])"
  by (simp add: arrayFromSet_def)

lemma arrayFromSet_first: "arrayFromSet xs = firstOccurrences xs"
proof (induction xs rule: rev_induct)
  case Nil
  show ?case by (simp add: arrayFromSet_def)
next
  case (snoc x xs)
  show ?case
    by (simp add: arrayFromSet_snoc firstOccurrences_snoc snoc.IH set_firstOccurrences)
qed

lemma firstOccurrences_distinct: "distinct xs \<Longrightarrow> firstOccurrences xs = xs"
  by (induction xs rule: rev_induct) (auto simp: firstOccurrences_snoc)

lemma dedupRoute_idem: "dedupRoute (dedupRoute r) = dedupRoute r"
  by (simp add: dedupRoute_def arrayFromSet_first firstOccurrences_distinct
      distinct_firstOccurrences)

lemma postPass_nth:
  "k < length st \<Longrightarrow>
   postPass st refs ! k = (if k \<in> set refs then dedupRoute (st ! k) else st ! k)"
proof (induction refs arbitrary: st)
  case Nil
  show ?case by (simp add: postPass_def)
next
  case (Cons a refs)
  have e: "postPass st (a # refs) = postPass (st[a := dedupRoute (st ! a)]) refs"
    by (simp add: postPass_def)
  have l: "k < length (st[a := dedupRoute (st ! a)])" using Cons.prems by simp
  show ?case
    unfolding e Cons.IH [OF l]
    using Cons.prems by (cases "k = a") (simp_all add: dedupRoute_idem)
qed

lemma parseSchedule_lists:
  "parseSchedule nts rows =
     (map (\<lambda>a. dedupRoute (store (run nts rows) ! a)) (routesRegular (run nts rows)),
      map (\<lambda>a. dedupRoute (store (run nts rows) ! a)) (routesFriday (run nts rows)))"
proof -
  have v: "\<forall>a \<in> set (routesRegular (run nts rows)) \<union> set (routesFriday (run nts rows)).
             a < length (store (run nts rows))"
    using refsValid_run [of nts rows] by (simp add: refsValid_def)
  show ?thesis
    unfolding parseSchedule_def Let_def
    using v by (auto simp: postPass_nth)
qed

lemma output_route:
  assumes "r \<in> set (fst (parseSchedule nts rows)) \<union> set (snd (parseSchedule nts rows))"
  shows "\<exists>a \<in> set (routesRegular (run nts rows)) \<union> set (routesFriday (run nts rows)).
           a < length (store (run nts rows)) \<and> r = dedupRoute (store (run nts rows) ! a)"
proof -
  from assms obtain a where a: "a \<in> set (routesRegular (run nts rows)) \<union> set (routesFriday (run nts rows))"
    and r: "r = dedupRoute (store (run nts rows) ! a)"
    by (auto simp: parseSchedule_lists)
  moreover have "a < length (store (run nts rows))"
    using refsValid_run [of nts rows] a by (simp add: refsValid_def)
  ultimately show ?thesis by blast
qed

text \<open>
  Claim C5. Let a row open a route after the rows \<open>pre\<close>, at the address \<open>k\<close> (the
  number of routes created before). At the end of the loop \<open>k\<close> is in the Friday array
  exactly when the mode was Friday when the row was processed, and in the regular array
  exactly when it was not, whatever the code of the route is; the mode is Friday exactly
  when one of the rows before carried the Friday marker; and the object at \<open>k\<close> still has
  the code of the row. The two lists \<^verbatim>\<open>parseSchedule\<close> returns hold the objects at the
  addresses of the regular and of the Friday array, in the order of the arrays.
\<close>

theorem partition_by_mode:
  assumes "opensRoute nts row"
  shows "(length (store (run nts pre)) \<in> set (routesFriday (run nts (pre @ row # post)))
            \<longleftrightarrow> mode (run nts pre) = Friday) \<and>
         (length (store (run nts pre)) \<in> set (routesRegular (run nts (pre @ row # post)))
            \<longleftrightarrow> mode (run nts pre) = Regular) \<and>
         (mode (run nts pre) = Friday \<longleftrightarrow> (\<exists>r \<in> set pre. isMarkerRow nts r)) \<and>
         code (store (run nts (pre @ row # post)) ! length (store (run nts pre)))
           = cellText nts (cellAt row 0) \<and>
         parseSchedule nts (pre @ row # post) =
           (map (\<lambda>a. dedupRoute (store (run nts (pre @ row # post)) ! a))
              (routesRegular (run nts (pre @ row # post))),
            map (\<lambda>a. dedupRoute (store (run nts (pre @ row # post)) ! a))
              (routesFriday (run nts (pre @ row # post))))"
proof -
  define s where "s = run nts pre"
  define k where "k = length (store s)"
  define s1 where "s1 = step nts s row"
  have v: "refsValid s" by (simp add: s_def refsValid_run)
  have v1: "refsValid s1" unfolding s1_def using v by (rule refsValid_step)
  have k1: "k < length (store s1)"
    using assms by (simp add: s1_def k_def step_length_store)
  have fresh: "k \<notin> set (routesFriday s)" "k \<notin> set (routesRegular s)"
    using v unfolding refsValid_def k_def by auto
  have f1: "k \<in> set (routesFriday s1) \<longleftrightarrow> mode s = Friday"
    using assms fresh by (auto simp: s1_def step_routesFriday k_def)
  have r1: "k \<in> set (routesRegular s1) \<longleftrightarrow> mode s = Regular"
    using assms fresh by (cases "mode s") (auto simp: s1_def step_routesRegular k_def)
  have c1: "code (store s1 ! k) = cellText nts (cellAt row 0)"
    using assms by (simp add: s1_def k_def step_opens newRoute_def)
  have e: "run nts (pre @ row # post) = foldl (step nts) s1 post"
    by (simp add: run_append s_def s1_def)
  have main: "(k \<in> set (routesFriday (run nts (pre @ row # post))) \<longleftrightarrow> mode s = Friday) \<and>
         (k \<in> set (routesRegular (run nts (pre @ row # post))) \<longleftrightarrow> mode s = Regular) \<and>
         (mode s = Friday \<longleftrightarrow> (\<exists>r \<in> set pre. isMarkerRow nts r)) \<and>
         code (store (run nts (pre @ row # post)) ! k) = cellText nts (cellAt row 0)"
    unfolding e
    using foldl_keeps_friday [OF v1 k1, of nts post] foldl_keeps_regular [OF v1 k1, of nts post]
      foldl_code [OF k1, of nts post] f1 r1 c1 run_mode [of nts pre]
    by (simp add: s_def)
  show ?thesis
    using main parseSchedule_lists [of nts "pre @ row # post"]
    unfolding k_def s_def by (intro conjI) blast+
qed


theorem partition_by_mode_witness:
  "opensRoute integerNts r1Row \<and> mode (run integerNts [fridayRow, []]) = Friday \<and>
   length (store (run integerNts [fridayRow, []]))
     \<in> set (routesFriday (run integerNts ([fridayRow, []] @ r1Row # [r1MoreRow]))) \<and>
   length (store (run integerNts [fridayRow, []]))
     \<notin> set (routesRegular (run integerNts ([fridayRow, []] @ r1Row # [r1MoreRow])))"
proof -
  have h: "opensRoute integerNts r1Row" by code_simp
  have m: "mode (run integerNts [fridayRow, []]) = Friday" by code_simp
  from partition_by_mode [OF h, of "[fridayRow, []]" "[r1MoreRow]"] h m
  show ?thesis by simp
qed

text \<open>
  Claim C6. Every route \<^verbatim>\<open>parseSchedule\<close> returns, in either list, is an object of the
  loop whose \<^verbatim>\<open>toDSC\<close> and \<^verbatim>\<open>fromDSC\<close> were replaced by their first occurrences: each
  time that was accumulated is there exactly once, in the order in which the times first
  appeared.
\<close>

theorem times_deduplicated:
  assumes "r \<in> set (fst (parseSchedule nts rows)) \<union> set (snd (parseSchedule nts rows))"
  shows "\<exists>a < length (store (run nts rows)).
           code r = code (store (run nts rows) ! a) \<and>
           toDSC r = firstOccurrences (toDSC (store (run nts rows) ! a)) \<and>
           fromDSC r = firstOccurrences (fromDSC (store (run nts rows) ! a)) \<and>
           distinct (toDSC r) \<and> set (toDSC r) = set (toDSC (store (run nts rows) ! a)) \<and>
           distinct (fromDSC r) \<and> set (fromDSC r) = set (fromDSC (store (run nts rows) ! a))"
proof -
  from output_route [OF assms] obtain a where l: "a < length (store (run nts rows))"
    and r: "r = dedupRoute (store (run nts rows) ! a)" by blast
  have "code r = code (store (run nts rows) ! a) \<and>
        toDSC r = firstOccurrences (toDSC (store (run nts rows) ! a)) \<and>
        fromDSC r = firstOccurrences (fromDSC (store (run nts rows) ! a))"
    by (simp add: r dedupRoute_def arrayFromSet_first)
  then show ?thesis
    using l by (auto simp: distinct_firstOccurrences set_firstOccurrences)
qed


theorem times_deduplicated_witness:
  "repeatRoute \<in> set (fst (parseSchedule integerNts repeatRows)) \<union>
                 set (snd (parseSchedule integerNts repeatRows)) \<and>
   toDSC (store (run integerNts repeatRows) ! 0) = [''08:00'', ''08:00'', ''09:00''] \<and>
   (\<exists>a < length (store (run integerNts repeatRows)).
      code repeatRoute = code (store (run integerNts repeatRows) ! a) \<and>
      toDSC repeatRoute = firstOccurrences (toDSC (store (run integerNts repeatRows) ! a)) \<and>
      fromDSC repeatRoute = firstOccurrences (fromDSC (store (run integerNts repeatRows) ! a)) \<and>
      distinct (toDSC repeatRoute) \<and>
      set (toDSC repeatRoute) = set (toDSC (store (run integerNts repeatRows) ! a)) \<and>
      distinct (fromDSC repeatRoute) \<and>
      set (fromDSC repeatRoute) = set (fromDSC (store (run integerNts repeatRows) ! a)))"
proof -
  have h: "repeatRoute \<in> set (fst (parseSchedule integerNts repeatRows)) \<union>
                          set (snd (parseSchedule integerNts repeatRows))"
    by code_simp
  have t: "toDSC (store (run integerNts repeatRows) ! 0) = [''08:00'', ''08:00'', ''09:00'']"
    by code_simp
  show ?thesis
    by (rule conjI [OF h conjI [OF t times_deduplicated [OF h]]])
qed

subsection \<open>The filter\<close>

text \<open>
  Claim C7. The filter keeps, in their order, exactly the routes for which the selected
  code is empty or equal to the code of the route, and the query is empty or occurs in
  the lower-cased, space-joined code, name, details, outbound and return times after
  lower-casing; the result is a subsequence of the list.
\<close>

theorem filterRoutes_spec:
  "filterRoutes list selectedCode query = filter (spec_keep selectedCode query) list \<and>
   subseq (filterRoutes list selectedCode query) list"
proof -
  have e: "filterRoutes list selectedCode query = filter (spec_keep selectedCode query) list"
    by (auto simp: filterRoutes_def Let_def spec_keep_def haystack_def toLowerCase_def
        intro: filter_cong)
  show ?thesis
    unfolding e by simp
qed

theorem filterRoutes_spec_witness:
  "filterRoutes [routeMain, routeCampus] ''R1'' ''MAIN'' = [routeMain] \<and>
   subseq (filterRoutes [routeMain, routeCampus] ''R1'' ''MAIN'') [routeMain, routeCampus]"
proof -
  have e: "filter (spec_keep ''R1'' ''MAIN'') [routeMain, routeCampus] = [routeMain]"
    by code_simp
  note T = filterRoutes_spec [of "[routeMain, routeCampus]" "''R1''" "''MAIN''"]
  have A: "filterRoutes [routeMain, routeCampus] ''R1'' ''MAIN'' = [routeMain]"
    using T [THEN conjunct1] by (simp only: e)
  show ?thesis
    by (rule conjI [OF A T [THEN conjunct2]])
qed

subsection \<open>The classifier scenario\<close>

text \<open>
  Claim C1, amended. The rows of the scenario give no regular route and one Friday route
  with code R1, name Main Route, details Via X, outbound times 08:00 and 09:00 (a time given
  as text in the form H:MM is kept as it is) and return times 6:00 PM and 7:12 PM.
\<close>

theorem scenario_parse:
  "parseSchedule nts
     [[CStr ''Friday Schedule''],
      [],
      [CStr ''R1'', CStr ''08:00'', CStr ''Main Route'', CStr ''Via X'', CNum (Finite (3 / 4))],
      [CStr [], CStr ''09:00'', CStr [], CStr [], CNum (Finite (4 / 5))]]
   = ([], [\<lparr>code = ''R1'', name = ''Main Route'', details = ''Via X'',
            toDSC = [''08:00'', ''09:00''], fromDSC = [''6:00 PM'', ''7:12 PM'']\<rparr>])"
  by code_simp

text \<open>The result the claim states, with outbound times 8:00 AM and 9:00 AM, is not the
  result of the program.\<close>

theorem scenario_counterexample:
  "parseSchedule integerNts
     [[CStr ''Friday Schedule''],
      [],
      [CStr ''R1'', CStr ''08:00'', CStr ''Main Route'', CStr ''Via X'', CNum (Finite (3 / 4))],
      [CStr [], CStr ''09:00'', CStr [], CStr [], CNum (Finite (4 / 5))]]
   \<noteq> ([], [\<lparr>code = ''R1'', name = ''Main Route'', details = ''Via X'',
            toDSC = [''8:00 AM'', ''9:00 AM''], fromDSC = [''6:00 PM'', ''7:12 PM'']\<rparr>])"
  by code_simp

subsection \<open>The Friday badge\<close>

lemma code_dedupRoute [simp]: "code (dedupRoute r) = code r"
  by (simp add: dedupRoute_def)

text \<open>
  Claim C2, amended. A route object has the fields code, name, details, toDSC and fromDSC
  and no Friday flag. The one Friday indication the program computes for a route is the
  badge of its card, and for the route a row opens that badge is Friday exactly when
  cell 0 of the row begins with a capital F, whatever the mode was at that row.
\<close>

theorem badge_by_code:
  assumes "opensRoute nts row"
  shows "badge (dedupRoute (store (run nts (pre @ row # post)) ! length (store (run nts pre))))
         = (if startsWithF (cellText nts (cellAt row 0)) then ''Friday'' else ''Regular'')"
proof -
  have l: "length (store (run nts pre)) < length (store (step nts (run nts pre) row))"
    using assms by (simp add: step_length_store)
  have "code (store (run nts (pre @ row # post)) ! length (store (run nts pre)))
      = code (store (step nts (run nts pre) row) ! length (store (run nts pre)))"
    unfolding run_append by (rule foldl_code [OF l])
  also have "\<dots> = cellText nts (cellAt row 0)"
    using assms by (simp add: step_opens newRoute_def)
  finally show ?thesis by (simp add: badge_def)
qed

theorem badge_by_code_witness:
  "opensRoute integerNts r1Row \<and> mode (run integerNts [fridayRow, []]) = Friday \<and>
   badge (dedupRoute (store (run integerNts ([fridayRow, []] @ r1Row # [r1MoreRow]))
                        ! length (store (run integerNts [fridayRow, []])))) = ''Regular''"
proof -
  have h: "opensRoute integerNts r1Row" by code_simp
  have m: "mode (run integerNts [fridayRow, []]) = Friday" by code_simp
  have c: "\<not> startsWithF (cellText integerNts (cellAt r1Row 0))" by code_simp
  from badge_by_code [OF h, of "[fridayRow, []]" "[r1MoreRow]"] h m c
  show ?thesis by simp
qed

text \<open>In the scenario the route R1 was collected in Friday mode, and its badge is Regular.\<close>

theorem friday_flag_counterexample:
  "snd (parseSchedule integerNts scenarioRows)
     = [\<lparr>code = ''R1'', name = ''Main Route'', details = ''Via X'',
         toDSC = [''08:00'', ''09:00''], fromDSC = [''6:00 PM'', ''7:12 PM'']\<rparr>] \<and>
   map badge (snd (parseSchedule integerNts scenarioRows)) = [''Regular''] \<and>
   mode (run integerNts scenarioRows) = Friday"
  by code_simp

subsection \<open>A time of midnight\<close>

text \<open>
  Claim C3. The number 0 is a cell that is not empty, and \<^verbatim>\<open>normalizeTime\<close> renders it
  as 12:00 AM; but on a route-opening row and on a continuation row with 0 in cell 1 the
  program appends nothing to \<^verbatim>\<open>toDSC\<close>, while the times of cell 4 are appended.
\<close>

theorem midnight_dropped:
  "parseSchedule nts
     [[CStr ''R1'', CNum (Finite 0), CStr ''Main'', CStr [], CNum (Finite (1 / 2))],
      [CStr [], CNum (Finite 0), CStr [], CStr [], CNum (Finite (3 / 4))]]
   = ([\<lparr>code = ''R1'', name = ''Main'', details = [],
        toDSC = [], fromDSC = [''12:00 PM'', ''6:00 PM'']\<rparr>], []) \<and>
   normalizeTime nts (CNum (Finite 0)) = ''12:00 AM''"
  by code_simp

end
